theory Spec2Isabelle
  imports Main
begin

section \<open>The rule model (module \<open>easyply.nodes\<close>)\<close>

text \<open>
  Modelled from the spec: the classes \<open>Term\<close>, \<open>NamedTerm\<close>, \<open>OptionalGroup\<close> and
  \<open>Rule\<close> live in \<open>easyply/nodes.py\<close>, which is not part of the sources at hand. The
  data model of the specification (section 3) gives a \<open>Term\<close> a \<open>symbol\<close>, a
  \<open>NamedTerm\<close> a \<open>name\<close> and a \<open>symbol\<close>, an \<open>OptionalGroup\<close> an ordered sequence of
  terms and nested groups, and a \<open>Rule\<close> a left-hand side \<open>lhs\<close> and an ordered sequence
  \<open>terms\<close>. \<open>NamedTerm n s\<close> has name \<open>n\<close> and symbol \<open>s\<close>. Equality of rules is
  structural (the specification's "equivalent structural hash").
\<close>

datatype node = Term string | NamedTerm string string | OptionalGroup "node list"

record Rule =
  lhs :: string
  terms :: "node list"

fun is_group :: "node \<Rightarrow> bool" where
  "is_group (OptionalGroup g) = True"
| "is_group t = False"

text \<open>
  Modelled from the spec: \<open>Rule.expand_optionals\<close> (section 4.2) is absent from the
  sources. A sequence without a group expands to itself alone. At the first group, the
  group's inner sequence is expanded recursively; the results are (a) the group left
  out, combined with every expansion of the remainder, and (b) each resolved inner
  sequence spliced in at the group's place, combined with every expansion of the
  remainder. The terms before the first group stay where they are.
\<close>

function (sequential) expand_terms :: "node list \<Rightarrow> node list list" where
  "expand_terms [] = [[]]"
| "expand_terms (OptionalGroup g # ts) =
     (let rest = expand_terms ts
      in rest @ concat (map (\<lambda>inner. map (\<lambda>r. inner @ r) rest) (expand_terms g)))"
| "expand_terms (t # ts) = map ((#) t) (expand_terms ts)"
  by pat_completeness auto
termination
  by (relation "measure (size_list size)") auto

definition Rule_expand_optionals :: "Rule \<Rightarrow> Rule list" where
  "Rule_expand_optionals r = map (\<lambda>ts. r\<lparr>terms := ts\<rparr>) (expand_terms (terms r))"

text \<open>
  Modelled from the spec: \<open>Rule.flatten\<close> (section 4.3) is absent from the sources. It
  returns a new rule whose terms are the terms of the rule in their order, every group
  that remains replaced by its inner terms in place.
\<close>

function (sequential) flatten_terms :: "node list \<Rightarrow> node list" where
  "flatten_terms [] = []"
| "flatten_terms (OptionalGroup g # ts) = flatten_terms g @ flatten_terms ts"
| "flatten_terms (t # ts) = t # flatten_terms ts"
  by pat_completeness auto
termination
  by (relation "measure (size_list size)") auto

definition flatten :: "Rule \<Rightarrow> Rule" where
  "flatten r = r\<lparr>terms := flatten_terms (terms r)\<rparr>"

text \<open>
  Modelled from the spec: \<open>Rule.format\<close> (section 4.4) is absent from the sources. The
  line has the shape \<open>lhs : symbol1 symbol2 ...\<close>, built from the flattened term
  sequence. With \<open>pure_ply\<close> only the symbols are written. Without it the specification
  only says that naming annotations may be retained; they are rendered here in the
  notation of the specification's grammar, \<open>name=symbol\<close>.
\<close>

fun join :: "string \<Rightarrow> string list \<Rightarrow> string" where
  "join sep [] = []"
| "join sep [x] = x"
| "join sep (x # y # ys) = x @ sep @ join sep (y # ys)"

fun format_term :: "bool \<Rightarrow> node \<Rightarrow> string" where
  "format_term pure_ply (Term s) = s"
| "format_term pure_ply (NamedTerm n s) = (if pure_ply then s else n @ ''='' @ s)"
| "format_term pure_ply (OptionalGroup g) = []"

definition format :: "Rule \<Rightarrow> bool \<Rightarrow> string" where
  "format r pure_ply =
     lhs r @ '' : '' @ join '' '' (map (format_term pure_ply) (flatten_terms (terms r)))"

section \<open>Inputs, errors and Python's built-ins\<close>

text \<open>
  The functions of \<open>easyply/__init__.py\<close> take a "ruleset": a rule, a string, or a
  list or tuple of rules and strings. An \<open>item\<close> is one rule or one string; a
  \<open>ruleset_input\<close> is either one item that is not a list or tuple, or a list or tuple
  of items.
\<close>

datatype item = RuleItem Rule | StrItem string

datatype ruleset_input = Single item | Many "item list"

datatype error =
    NoDocstringError string
  | SingleRuleExpectedError ruleset_input
  | ParseError string
  | IndexError

text \<open>
  \<open>str.strip()\<close> removes the white space at both ends. A string is a sequence of code
  points below 256; of these Python 3 counts as white space 9 to 13, 28 to 32, 133 and
  160.
\<close>

definition isspace :: "char \<Rightarrow> bool" where
  "isspace c =
     (let n = (of_char c :: nat)
      in (9 \<le> n \<and> n \<le> 13) \<or> (28 \<le> n \<and> n \<le> 32) \<or> n = 133 \<or> n = 160)"

definition strip :: "string \<Rightarrow> string" where
  "strip s = rev (dropWhile isspace (rev (dropWhile isspace s)))"

text \<open>
  \<open>chain.from_iterable(f(x) for x in xs)\<close>, made a list: the results of \<open>f\<close> in order,
  one after the other. An exception raised by \<open>f\<close> at some element ends the whole
  computation.
\<close>

fun chain_from_iterable :: "('a \<Rightarrow> error + 'b list) \<Rightarrow> 'a list \<Rightarrow> error + 'b list" where
  "chain_from_iterable f [] = Inr []"
| "chain_from_iterable f (x # xs) =
     (case f x of
        Inl e \<Rightarrow> Inl e
      | Inr ys \<Rightarrow>
          (case chain_from_iterable f xs of
             Inl e \<Rightarrow> Inl e
           | Inr zs \<Rightarrow> Inr (ys @ zs)))"

text \<open>
  \<open>list(set(xs))\<close>: Python fixes neither the order in which a set is iterated nor how
  it depends on the elements. The order is a parameter \<open>ord\<close> of the model; all that
  is known of it is that the list it gives has the elements of \<open>xs\<close>, each once.
\<close>

definition set_iteration :: "('a list \<Rightarrow> 'a list) \<Rightarrow> bool" where
  "set_iteration ord \<longleftrightarrow> (\<forall>xs. distinct (ord xs) \<and> set (ord xs) = set xs)"

section \<open>The functions of \<open>easyply/__init__.py\<close>\<close>

text \<open>
  The rule parser \<open>parser.parse\<close> is imported as \<open>_parse\<close>; it is the parameter \<open>prs\<close>
  of the functions below, a function from a string to a list of rules or an error.
\<close>

definition coerce_to_rule :: "(string \<Rightarrow> error + Rule list) \<Rightarrow> item \<Rightarrow> error + Rule list" where
  "coerce_to_rule prs x = (case x of StrItem s \<Rightarrow> prs s | RuleItem r \<Rightarrow> Inr [r])"

definition coerce_to_ruleset ::
  "(string \<Rightarrow> error + Rule list) \<Rightarrow> ruleset_input \<Rightarrow> error + Rule list" where
  "coerce_to_ruleset prs ruleset =
     (let ruleset' = (case ruleset of Many xs \<Rightarrow> xs | Single x \<Rightarrow> [x])
      in chain_from_iterable (coerce_to_rule prs) ruleset')"

definition coerce_to_single_rule ::
  "(string \<Rightarrow> error + Rule list) \<Rightarrow> ruleset_input \<Rightarrow> error + Rule" where
  "coerce_to_single_rule prs inp =
     (case coerce_to_ruleset prs inp of
        Inl e \<Rightarrow> Inl e
      | Inr ruleset \<Rightarrow>
          if length ruleset \<noteq> 1 then Inl (SingleRuleExpectedError inp)
          else Inr (ruleset ! 0))"

text \<open>
  \<open>expand_optionals\<close> returns strings when \<open>format\<close> is true and flattened rules
  otherwise; an \<open>expansion\<close> is one or the other.
\<close>

datatype expansion = Formatted string | Flat Rule

definition process_rule ::
  "(expansion list \<Rightarrow> expansion list) \<Rightarrow> bool \<Rightarrow> bool \<Rightarrow> Rule \<Rightarrow> expansion list" where
  "process_rule ord fmt pure_ply r =
     (let rules = Rule_expand_optionals r
      in if fmt then ord (map (\<lambda>r'. Formatted (format (flatten r') pure_ply)) rules)
         else ord (map (\<lambda>r'. Flat (flatten r')) rules))"

definition expand_optionals ::
  "(string \<Rightarrow> error + Rule list) \<Rightarrow> (expansion list \<Rightarrow> expansion list) \<Rightarrow>
   ruleset_input \<Rightarrow> bool \<Rightarrow> bool \<Rightarrow> error + expansion list" where
  "expand_optionals prs ord ruleset fmt pure_ply =
     (case coerce_to_ruleset prs ruleset of
        Inl e \<Rightarrow> Inl e
      | Inr ruleset' \<Rightarrow> Inr (concat (map (process_rule ord fmt pure_ply) ruleset')))"

text \<open>
  The wrapper of \<open>create_wrapper\<close>. The parse stack \<open>p\<close> is a list of slots; reading or
  writing a slot that is not there raises \<open>IndexError\<close>. \<open>kwargs\<close> is a dictionary from
  names to slot values, and \<open>func\<close> takes it and returns a value or raises.
\<close>

fun extract_kwargs ::
  "node list \<Rightarrow> nat \<Rightarrow> 'v list \<Rightarrow> (string \<rightharpoonup> 'v) \<Rightarrow> error + (string \<rightharpoonup> 'v)" where
  "extract_kwargs [] i p kwargs = Inr kwargs"
| "extract_kwargs (NamedTerm name symb # ts) i p kwargs =
     (if i + 1 < length p
      then extract_kwargs ts (i + 1) p (kwargs(name \<mapsto> p ! (i + 1)))
      else Inl IndexError)"
| "extract_kwargs (t # ts) i p kwargs = extract_kwargs ts (i + 1) p kwargs"

definition wrapper ::
  "Rule \<Rightarrow> ((string \<rightharpoonup> 'v) \<Rightarrow> error + 'v) \<Rightarrow> 'v list \<Rightarrow> error + 'v list" where
  "wrapper r func p =
     (case extract_kwargs (terms r) 0 p Map.empty of
        Inl e \<Rightarrow> Inl e
      | Inr kwargs \<Rightarrow>
          (case func kwargs of
             Inl e \<Rightarrow> Inl e
           | Inr v \<Rightarrow> if 0 < length p then Inr (p[0 := v]) else Inl IndexError))"

record 'v wrapped =
  call :: "'v list \<Rightarrow> error + 'v list"
  doc :: string

definition create_wrapper ::
  "(string \<Rightarrow> error + Rule list) \<Rightarrow> ruleset_input \<Rightarrow> ((string \<rightharpoonup> 'v) \<Rightarrow> error + 'v) \<Rightarrow>
   error + 'v wrapped" where
  "create_wrapper prs inp func =
     (case coerce_to_single_rule prs inp of
        Inl e \<Rightarrow> Inl e
      | Inr r \<Rightarrow>
          (let r' = flatten r
           in Inr \<lparr>call = wrapper r' func, doc = format r' True\<rparr>))"

text \<open>
  \<open>parse(defn, fname=None)\<close>: \<open>defn\<close> is a docstring or \<open>None\<close>, \<open>fname\<close> a function's
  name or \<open>None\<close>. The test \<open>not defn\<close> holds for \<open>None\<close> and for the empty string, and
  \<open>"Function %s has no docstring" % fname\<close> puts the name in the place of \<open>%s\<close>.
\<close>

definition parse ::
  "(string \<Rightarrow> error + Rule list) \<Rightarrow> string option \<Rightarrow> string option \<Rightarrow> error + Rule list" where
  "parse prs defn fname =
     (case (if defn = Some [] then None else defn) of
        None \<Rightarrow>
          (case fname of
             Some f \<Rightarrow> Inl (NoDocstringError (''Function '' @ f @ '' has no docstring''))
           | None \<Rightarrow> Inl (NoDocstringError ''Provided function has no docstring''))
      | Some d \<Rightarrow> prs (strip d))"

section \<open>The rule parser (module \<open>easyply.parser\<close>)\<close>

text \<open>
  Modelled from the spec: \<open>parser.parse\<close> lives in \<open>easyply/parser.py\<close>, which is not
  part of the sources at hand. The specification (section 4.1) gives the grammar
  \<^verbatim>\<open>
  rule           := lhs ":" term_seq
  term_seq       := term*
  term           := named_term | bare_symbol | optional_group
  named_term     := name "=" symbol
  optional_group := "(" term_seq ")" "?"
  \<close>
  with one rule for each line of the input, every bare symbol a \<open>NamedTerm\<close> whose name
  is its symbol, and a parse error naming the offending line as the result of the whole
  call when a line is malformed. Blank lines carry no rule, so an empty input has no
  rules.
\<close>

datatype token = LParen | RParen | QMark | Word string

definition flush :: "string \<Rightarrow> token list" where
  "flush w = (if w = [] then [] else [Word (rev w)])"

fun tokenize :: "string \<Rightarrow> string \<Rightarrow> token list" where
  "tokenize [] w = flush w"
| "tokenize (c # cs) w =
     (if c = CHR ''('' then flush w @ LParen # tokenize cs []
      else if c = CHR '')'' then flush w @ RParen # tokenize cs []
      else if c = CHR ''?'' then flush w @ QMark # tokenize cs []
      else if isspace c then flush w @ tokenize cs []
      else tokenize cs (c # w))"

definition mk_term :: "string \<Rightarrow> node option" where
  "mk_term w =
     (if CHR ''='' \<in> set w
      then (let name = takeWhile (\<lambda>c. c \<noteq> CHR ''='') w;
                symb = tl (dropWhile (\<lambda>c. c \<noteq> CHR ''='') w)
            in if name = [] \<or> symb = [] \<or> CHR ''='' \<in> set symb then None
               else Some (NamedTerm name symb))
      else Some (NamedTerm w w))"

text \<open>
  The term sequence is read token by token with a stack of the sequences under
  construction, the innermost first and each in reverse; \<open>(\<close> opens a sequence, \<open>)?\<close>
  closes it and appends the group to the sequence around it.
\<close>

fun parse_tokens :: "token list \<Rightarrow> node list list \<Rightarrow> node list option" where
  "parse_tokens [] stack = (case stack of [seq] \<Rightarrow> Some (rev seq) | _ \<Rightarrow> None)"
| "parse_tokens (LParen # ts) stack = parse_tokens ts ([] # stack)"
| "parse_tokens (RParen # QMark # ts) stack =
     (case stack of
        cur # parent # rest \<Rightarrow> parse_tokens ts ((OptionalGroup (rev cur) # parent) # rest)
      | _ \<Rightarrow> None)"
| "parse_tokens (RParen # ts) stack = None"
| "parse_tokens (QMark # ts) stack = None"
| "parse_tokens (Word w # ts) stack =
     (case stack of
        cur # rest \<Rightarrow>
          (case mk_term w of
             None \<Rightarrow> None
           | Some t \<Rightarrow> parse_tokens ts ((t # cur) # rest))
      | [] \<Rightarrow> None)"

definition rule_body :: "string \<Rightarrow> string" where
  "rule_body line = tl (dropWhile (\<lambda>c. c \<noteq> CHR '':'') line)"

definition parse_rule :: "string \<Rightarrow> error + Rule" where
  "parse_rule line =
     (if CHR '':'' \<notin> set line then Inl (ParseError line)
      else (let l = strip (takeWhile (\<lambda>c. c \<noteq> CHR '':'') line)
            in if l = [] then Inl (ParseError line)
               else (case parse_tokens (tokenize (rule_body line) []) [[]] of
                       None \<Rightarrow> Inl (ParseError line)
                     | Some ts \<Rightarrow> Inr \<lparr>lhs = l, terms = ts\<rparr>)))"

fun split_lines :: "string \<Rightarrow> string list" where
  "split_lines [] = [[]]"
| "split_lines (c # cs) =
     (if c = CHR 0x0A then [] # split_lines cs
      else (case split_lines cs of
              l # ls \<Rightarrow> (c # l) # ls
            | [] \<Rightarrow> [[c]]))"

definition rule_lines :: "string \<Rightarrow> string list" where
  "rule_lines txt = filter (\<lambda>l. l \<noteq> []) (map strip (split_lines txt))"

definition parser_parse :: "string \<Rightarrow> error + Rule list" where
  "parser_parse txt =
     chain_from_iterable
       (\<lambda>l. case parse_rule l of Inl e \<Rightarrow> Inl e | Inr r \<Rightarrow> Inr [r])
       (rule_lines txt)"

section \<open>Notions used by the properties\<close>

text \<open>A sequence without any optional group, as a flattened rule has it.\<close>

definition no_groups :: "node list \<Rightarrow> bool" where
  "no_groups ts = list_all (\<lambda>t. \<not> is_group t) ts"

text \<open>
  Every optional group of the sequence stands at the top level: none lies inside
  another one.
\<close>

fun group_free_inside :: "node \<Rightarrow> bool" where
  "group_free_inside (OptionalGroup g) = no_groups g"
| "group_free_inside t = True"

definition groups_top_level :: "node list \<Rightarrow> bool" where
  "groups_top_level ts = list_all group_free_inside ts"

text \<open>The terms and named terms that occur in a node, from left to right.\<close>

fun leaves :: "node \<Rightarrow> node list" where
  "leaves (OptionalGroup g) = concat (map leaves g)"
| "leaves t = [t]"




text \<open>The same two notions on a sequence of tokens.\<close>

fun tokens_balanced :: "nat \<Rightarrow> token list \<Rightarrow> bool" where
  "tokens_balanced d [] = (d = 0)"
| "tokens_balanced d (LParen # ts) = tokens_balanced (Suc d) ts"
| "tokens_balanced d (RParen # ts) = (0 < d \<and> tokens_balanced (d - 1) ts)"
| "tokens_balanced d (t # ts) = tokens_balanced d ts"


section \<open>Basic facts\<close>

lemma set_iteration_remdups: "set_iteration remdups"
  by (simp add: set_iteration_def)

lemma set_iteration_set: "set_iteration ord \<Longrightarrow> set (ord xs) = set xs"
  by (simp add: set_iteration_def)

lemma set_iteration_distinct: "set_iteration ord \<Longrightarrow> distinct (ord xs)"
  by (simp add: set_iteration_def)

lemma set_iteration_length: "set_iteration ord \<Longrightarrow> length (ord xs) = card (set xs)"
  using distinct_card [of "ord xs"] by (simp add: set_iteration_def)

lemma distinct_singleton:
  assumes "distinct ys" and "set ys = {x}"
  shows "ys = [x]"
proof -
  have "length ys = 1"
    using distinct_card [OF assms(1)] assms(2) by simp
  then obtain y where "ys = [y]"
    by (cases ys) auto
  with assms(2) show ?thesis by simp
qed

lemma set_iteration_single: "set_iteration ord \<Longrightarrow> ord [x] = [x]"
  by (rule distinct_singleton) (simp_all add: set_iteration_def)

lemma expand_terms_no_groups: "no_groups ts \<Longrightarrow> expand_terms ts = [ts]"
  by (induction ts rule: expand_terms.induct) (simp_all add: no_groups_def)

lemma flatten_terms_no_groups: "no_groups ts \<Longrightarrow> flatten_terms ts = ts"
  by (induction ts rule: flatten_terms.induct) (simp_all add: no_groups_def)

lemma no_groups_append: "no_groups (xs @ ys) \<longleftrightarrow> no_groups xs \<and> no_groups ys"
  by (simp add: no_groups_def)

lemma no_groups_flatten_terms: "no_groups (flatten_terms ts)"
  by (induction ts rule: flatten_terms.induct) (simp_all add: no_groups_def)

lemma no_groups_expand_terms: "e \<in> set (expand_terms ts) \<Longrightarrow> no_groups e"
  by (induction ts arbitrary: e rule: expand_terms.induct)
     (auto simp: no_groups_def Let_def)

lemma flatten_terms_leaves: "flatten_terms ts = concat (map leaves ts)"
  by (induction ts rule: flatten_terms.induct) simp_all

lemma Rule_expand_optionals_no_groups:
  "no_groups (terms r) \<Longrightarrow> Rule_expand_optionals r = [r]"
  by (simp add: Rule_expand_optionals_def expand_terms_no_groups)

lemma flatten_no_groups: "no_groups (terms r) \<Longrightarrow> flatten r = r"
  by (simp add: flatten_def flatten_terms_no_groups)

lemma coerce_single_rule: "coerce_to_ruleset prs (Single (RuleItem r)) = Inr [r]"
  by (simp add: coerce_to_ruleset_def coerce_to_rule_def)

section \<open>Rules without optional groups\<close>

text \<open>
  Claim C4. A rule with no optional group expands to exactly one rule, itself;
  flattening leaves it as it is; and \<open>expand_optionals\<close> on it returns that one rule
  (or, formatted, its one line).
\<close>

theorem no_optional_invariance:
  assumes "set_iteration ord" and "no_groups (terms r)"
  shows "Rule_expand_optionals r = [r] \<and> flatten r = r
    \<and> expand_optionals prs ord (Single (RuleItem r)) False pure_ply = Inr [Flat r]
    \<and> expand_optionals prs ord (Single (RuleItem r)) True pure_ply
        = Inr [Formatted (format r pure_ply)]"
  using assms
  by (simp add: expand_optionals_def coerce_single_rule process_rule_def
      Rule_expand_optionals_no_groups flatten_no_groups set_iteration_single)

theorem no_optional_invariance_witness:
  "set_iteration (remdups :: expansion list \<Rightarrow> expansion list)
   \<and> no_groups (terms \<lparr>lhs = ''x'', terms = [Term ''A'', NamedTerm ''b'' ''B'']\<rparr>)
   \<and> expand_optionals parser_parse remdups
        (Single (RuleItem \<lparr>lhs = ''x'', terms = [Term ''A'', NamedTerm ''b'' ''B'']\<rparr>)) False True
      = Inr [Flat \<lparr>lhs = ''x'', terms = [Term ''A'', NamedTerm ''b'' ''B'']\<rparr>]
   \<and> expand_optionals parser_parse remdups
        (Single (RuleItem \<lparr>lhs = ''x'', terms = [Term ''A'', NamedTerm ''b'' ''B'']\<rparr>)) True True
      = Inr [Formatted ''x : A B'']"
proof -
  have a: "set_iteration (remdups :: expansion list \<Rightarrow> expansion list)"
    by (rule set_iteration_remdups)
  have b: "no_groups (terms \<lparr>lhs = ''x'', terms = [Term ''A'', NamedTerm ''b'' ''B'']\<rparr>)"
    by (simp add: no_groups_def)
  show ?thesis
    using a b no_optional_invariance [OF a b, of parser_parse True]
    by (simp add: format_def)
qed

section \<open>Flattening\<close>

text \<open>
  Claim C5. Flattening a rule that is already flat returns it unchanged, so flattening
  twice is flattening once. The flattened rule has the left-hand side of the rule and,
  as terms, exactly the terms and named terms occurring in the rule, in their order and
  each with its name and symbol as it was.
\<close>

theorem flatten_idempotent:
  "(no_groups (terms r) \<longrightarrow> flatten r = r)
   \<and> flatten (flatten r) = flatten r
   \<and> no_groups (terms (flatten r))
   \<and> lhs (flatten r) = lhs r
   \<and> terms (flatten r) = concat (map leaves (terms r))"
proof (intro conjI impI)
  show "flatten r = r" if "no_groups (terms r)"
    using that by (rule flatten_no_groups)
  show flat: "no_groups (terms (flatten r))"
    by (simp add: flatten_def no_groups_flatten_terms)
  show "flatten (flatten r) = flatten r"
    using flat by (rule flatten_no_groups)
  show "lhs (flatten r) = lhs r"
    by (simp add: flatten_def)
  show "terms (flatten r) = concat (map leaves (terms r))"
    by (simp add: flatten_def flatten_terms_leaves)
qed

theorem flatten_idempotent_witness:
  "no_groups (terms \<lparr>lhs = ''x'', terms = [Term ''A'', NamedTerm ''b'' ''B'']\<rparr>)
   \<and> flatten \<lparr>lhs = ''x'', terms = [Term ''A'', NamedTerm ''b'' ''B'']\<rparr>
       = \<lparr>lhs = ''x'', terms = [Term ''A'', NamedTerm ''b'' ''B'']\<rparr>
   \<and> terms (flatten \<lparr>lhs = ''x'', terms = [Term ''A'', OptionalGroup [NamedTerm ''b'' ''B'']]\<rparr>)
       = [Term ''A'', NamedTerm ''b'' ''B'']"
proof -
  have h: "no_groups (terms \<lparr>lhs = ''x'', terms = [Term ''A'', NamedTerm ''b'' ''B'']\<rparr>)"
    by (simp add: no_groups_def)
  have a: "flatten \<lparr>lhs = ''x'', terms = [Term ''A'', NamedTerm ''b'' ''B'']\<rparr>
       = \<lparr>lhs = ''x'', terms = [Term ''A'', NamedTerm ''b'' ''B'']\<rparr>"
    using flatten_idempotent [of "\<lparr>lhs = ''x'', terms = [Term ''A'', NamedTerm ''b'' ''B'']\<rparr>"] h
    by (elim conjE impE)
  have "terms (flatten \<lparr>lhs = ''x'', terms = [Term ''A'', OptionalGroup [NamedTerm ''b'' ''B'']]\<rparr>)
      = concat (map leaves (terms \<lparr>lhs = ''x'', terms = [Term ''A'', OptionalGroup [NamedTerm ''b'' ''B'']]\<rparr>))"
    using flatten_idempotent [of "\<lparr>lhs = ''x'', terms = [Term ''A'', OptionalGroup [NamedTerm ''b'' ''B'']]\<rparr>"]
    by (elim conjE)
  also have "\<dots> = [Term ''A'', NamedTerm ''b'' ''B'']"
    by simp
  finally have c: "terms (flatten \<lparr>lhs = ''x'', terms = [Term ''A'', OptionalGroup [NamedTerm ''b'' ''B'']]\<rparr>)
      = [Term ''A'', NamedTerm ''b'' ''B'']" .
  show ?thesis
    by (intro conjI h a c)
qed

section \<open>Coercion of the inputs\<close>

lemma chain_from_iterable_Inr:
  "\<forall>x\<in>set xs. f x = Inr (g x) \<Longrightarrow> chain_from_iterable f xs = Inr (concat (map g xs))"
  by (induction xs) simp_all

lemma chain_from_iterable_Inl:
  "\<forall>x\<in>set xs. f x = Inr (g x) \<Longrightarrow> f y = Inl e
    \<Longrightarrow> chain_from_iterable f (xs @ y # ys) = Inl e"
  by (induction xs) simp_all

text \<open>
  Claim C10. \<open>_coerce_to_ruleset\<close> treats an input that is not a list or tuple as the
  list of that one element. Where every string of the list is parsed to a list of
  rules, the result is the concatenation, in the order of the list, of the rules parsed
  from each string and of each rule that stands in the list itself, unchanged. A string
  that the parser rejects makes the whole coercion fail with the parser's error.
\<close>

theorem coerce_to_ruleset_concat:
  "coerce_to_ruleset prs (Single x) = coerce_to_ruleset prs (Many [x])
   \<and> ((\<forall>s. StrItem s \<in> set xs \<longrightarrow> prs s = Inr (parsed s)) \<longrightarrow>
        coerce_to_ruleset prs (Many xs)
          = Inr (concat (map (\<lambda>x. case x of StrItem s \<Rightarrow> parsed s | RuleItem r \<Rightarrow> [r]) xs)))
   \<and> ((\<forall>s. StrItem s \<in> set xs \<longrightarrow> prs s = Inr (parsed s)) \<and> prs bad = Inl e \<longrightarrow>
        coerce_to_ruleset prs (Many (xs @ StrItem bad # ys)) = Inl e)"
proof (intro conjI impI)
  show "coerce_to_ruleset prs (Single x) = coerce_to_ruleset prs (Many [x])"
    by (simp add: coerce_to_ruleset_def)
next
  assume ok: "\<forall>s. StrItem s \<in> set xs \<longrightarrow> prs s = Inr (parsed s)"
  have "\<forall>x\<in>set xs. coerce_to_rule prs x
      = Inr (case x of StrItem s \<Rightarrow> parsed s | RuleItem r \<Rightarrow> [r])"
    using ok by (auto simp: coerce_to_rule_def split: item.splits)
  then show "coerce_to_ruleset prs (Many xs)
      = Inr (concat (map (\<lambda>x. case x of StrItem s \<Rightarrow> parsed s | RuleItem r \<Rightarrow> [r]) xs))"
    by (simp add: coerce_to_ruleset_def chain_from_iterable_Inr)
next
  assume "(\<forall>s. StrItem s \<in> set xs \<longrightarrow> prs s = Inr (parsed s)) \<and> prs bad = Inl e"
  then have ok: "\<forall>s. StrItem s \<in> set xs \<longrightarrow> prs s = Inr (parsed s)"
    and bad: "prs bad = Inl e" by simp_all
  have "\<forall>x\<in>set xs. coerce_to_rule prs x
      = Inr (case x of StrItem s \<Rightarrow> parsed s | RuleItem r \<Rightarrow> [r])"
    using ok by (auto simp: coerce_to_rule_def split: item.splits)
  moreover have "coerce_to_rule prs (StrItem bad) = Inl e"
    using bad by (simp add: coerce_to_rule_def)
  ultimately have "chain_from_iterable (coerce_to_rule prs) (xs @ StrItem bad # ys) = Inl e"
    by (rule chain_from_iterable_Inl)
  then show "coerce_to_ruleset prs (Many (xs @ StrItem bad # ys)) = Inl e"
    by (simp add: coerce_to_ruleset_def)
qed

theorem coerce_to_ruleset_concat_witness:
  "coerce_to_ruleset parser_parse
      (Many [StrItem ''x: A'', RuleItem \<lparr>lhs = ''r'', terms = [Term ''T'']\<rparr>,
             StrItem (''y: B'' @ [CHR 0x0A] @ ''z: C'')])
    = Inr [\<lparr>lhs = ''x'', terms = [NamedTerm ''A'' ''A'']\<rparr>,
           \<lparr>lhs = ''r'', terms = [Term ''T'']\<rparr>,
           \<lparr>lhs = ''y'', terms = [NamedTerm ''B'' ''B'']\<rparr>,
           \<lparr>lhs = ''z'', terms = [NamedTerm ''C'' ''C'']\<rparr>]
   \<and> coerce_to_ruleset parser_parse
      (Many ([RuleItem \<lparr>lhs = ''r'', terms = [Term ''T'']\<rparr>] @ StrItem ''x: (A'' # [StrItem ''y: B'']))
    = Inl (ParseError ''x: (A'')"
proof -
  let ?R = "\<lparr>lhs = ''r'', terms = [Term ''T'']\<rparr>"
  let ?parsed = "\<lambda>s. if s = ''x: A'' then [\<lparr>lhs = ''x'', terms = [NamedTerm ''A'' ''A'']\<rparr>]
      else [\<lparr>lhs = ''y'', terms = [NamedTerm ''B'' ''B'']\<rparr>,
            \<lparr>lhs = ''z'', terms = [NamedTerm ''C'' ''C'']\<rparr>]"
  let ?xs = "[StrItem ''x: A'', RuleItem ?R, StrItem (''y: B'' @ [CHR 0x0A] @ ''z: C'')]"
  have pa: "parser_parse ''x: A'' = Inr [\<lparr>lhs = ''x'', terms = [NamedTerm ''A'' ''A'']\<rparr>]"
    by code_simp
  have pb: "parser_parse (''y: B'' @ [CHR 0x0A] @ ''z: C'')
      = Inr [\<lparr>lhs = ''y'', terms = [NamedTerm ''B'' ''B'']\<rparr>,
             \<lparr>lhs = ''z'', terms = [NamedTerm ''C'' ''C'']\<rparr>]"
    by code_simp
  have pc: "parser_parse ''x: (A'' = Inl (ParseError ''x: (A'')"
    by code_simp
  have h1: "\<forall>s. StrItem s \<in> set ?xs \<longrightarrow> parser_parse s = Inr (?parsed s)"
    using pa pb by simp
  have h2: "(\<forall>s. StrItem s \<in> set [RuleItem ?R] \<longrightarrow> parser_parse s = Inr (?parsed s))
      \<and> parser_parse ''x: (A'' = Inl (ParseError ''x: (A'')"
    using pc by simp
  note t1 = coerce_to_ruleset_concat [of parser_parse "StrItem ''x: A''" ?xs ?parsed
      "''x: (A''" "ParseError ''x: (A''" "[]"]
  note t2 = coerce_to_ruleset_concat [of parser_parse "StrItem ''x: A''" "[RuleItem ?R]" ?parsed
      "''x: (A''" "ParseError ''x: (A''" "[StrItem ''y: B'']"]
  have a: "coerce_to_ruleset parser_parse (Many ?xs)
      = Inr (concat (map (\<lambda>x. case x of StrItem s \<Rightarrow> ?parsed s | RuleItem r \<Rightarrow> [r]) ?xs))"
    using t1 [THEN conjunct2, THEN conjunct1, THEN mp, OF h1] .
  have b: "coerce_to_ruleset parser_parse
      (Many ([RuleItem ?R] @ StrItem ''x: (A'' # [StrItem ''y: B''])) = Inl (ParseError ''x: (A'')"
    using t2 [THEN conjunct2, THEN conjunct2, THEN mp, OF h2] .
  show ?thesis
    using a b by simp
qed

text \<open>
  Claim C7. When the ruleset an input coerces to does not have exactly one rule (none or
  several, the empty list among them), \<open>_coerce_to_single_rule\<close> raises
  \<open>SingleRuleExpectedError\<close> carrying the input; when it has exactly one rule, that rule
  is returned. An error of the coercion itself is passed on.
\<close>

theorem coerce_to_single_rule_arity:
  "(coerce_to_ruleset prs inp = Inr rs \<and> length rs \<noteq> 1 \<longrightarrow>
      coerce_to_single_rule prs inp = Inl (SingleRuleExpectedError inp))
   \<and> (coerce_to_ruleset prs inp = Inr [r] \<longrightarrow> coerce_to_single_rule prs inp = Inr r)
   \<and> (coerce_to_ruleset prs inp = Inl e \<longrightarrow> coerce_to_single_rule prs inp = Inl e)
   \<and> coerce_to_single_rule prs (Many []) = Inl (SingleRuleExpectedError (Many []))"
  by (simp add: coerce_to_single_rule_def coerce_to_ruleset_def)

theorem coerce_to_single_rule_arity_witness:
  "coerce_to_single_rule parser_parse
      (Many [RuleItem \<lparr>lhs = ''r'', terms = [Term ''T'']\<rparr>, RuleItem \<lparr>lhs = ''q'', terms = []\<rparr>])
    = Inl (SingleRuleExpectedError
        (Many [RuleItem \<lparr>lhs = ''r'', terms = [Term ''T'']\<rparr>, RuleItem \<lparr>lhs = ''q'', terms = []\<rparr>]))
   \<and> coerce_to_single_rule parser_parse (Single (StrItem ''''))
    = Inl (SingleRuleExpectedError (Single (StrItem '''')))
   \<and> coerce_to_single_rule parser_parse (Single (StrItem ''x: A''))
    = Inr \<lparr>lhs = ''x'', terms = [NamedTerm ''A'' ''A'']\<rparr>
   \<and> coerce_to_single_rule parser_parse (Single (StrItem ''x: (A'')) = Inl (ParseError ''x: (A'')"
proof -
  let ?two = "Many [RuleItem \<lparr>lhs = ''r'', terms = [Term ''T'']\<rparr>, RuleItem \<lparr>lhs = ''q'', terms = []\<rparr>]"
  have c1: "coerce_to_ruleset parser_parse ?two
      = Inr [\<lparr>lhs = ''r'', terms = [Term ''T'']\<rparr>, \<lparr>lhs = ''q'', terms = []\<rparr>]
      \<and> length [\<lparr>lhs = ''r'', terms = [Term ''T'']\<rparr>, \<lparr>lhs = ''q'', terms = []\<rparr>] \<noteq> 1"
    by (simp add: coerce_to_ruleset_def coerce_to_rule_def)
  have c2: "coerce_to_ruleset parser_parse (Single (StrItem '''')) = Inr []
      \<and> length ([] :: Rule list) \<noteq> 1"
    by code_simp
  have c3: "coerce_to_ruleset parser_parse (Single (StrItem ''x: A''))
      = Inr [\<lparr>lhs = ''x'', terms = [NamedTerm ''A'' ''A'']\<rparr>]"
    by code_simp
  have c4: "coerce_to_ruleset parser_parse (Single (StrItem ''x: (A'')) = Inl (ParseError ''x: (A'')"
    by code_simp
  note a = coerce_to_single_rule_arity [THEN conjunct1, THEN mp, OF c1]
  note b = coerce_to_single_rule_arity [THEN conjunct1, THEN mp, OF c2]
  note c = coerce_to_single_rule_arity [THEN conjunct2, THEN conjunct1, THEN mp, OF c3]
  note d = coerce_to_single_rule_arity [THEN conjunct2, THEN conjunct2, THEN conjunct1, THEN mp, OF c4]
  show ?thesis
    by (intro conjI a b c d)
qed

section \<open>Parsing a docstring\<close>

lemma strip_decompose:
  "\<exists>pre post. d = pre @ strip d @ post \<and> list_all isspace pre \<and> list_all isspace post"
proof (intro exI conjI)
  let ?m = "dropWhile isspace d"
  have "?m = rev (takeWhile isspace (rev ?m) @ dropWhile isspace (rev ?m))"
    by (simp only: takeWhile_dropWhile_id rev_rev_ident)
  then have "?m = strip d @ rev (takeWhile isspace (rev ?m))"
    by (simp only: rev_append strip_def)
  then show "d = takeWhile isspace d @ strip d @ rev (takeWhile isspace (rev ?m))"
    using takeWhile_dropWhile_id [of isspace d] by simp
  show "list_all isspace (takeWhile isspace d)"
    by (simp add: list_all_iff) (meson set_takeWhileD)
  show "list_all isspace (rev (takeWhile isspace (rev ?m)))"
    by (simp add: list_all_iff) (meson set_takeWhileD)
qed

lemma strip_ends:
  assumes "strip d \<noteq> []"
  shows "\<not> isspace (hd (strip d)) \<and> \<not> isspace (last (strip d))"
proof
  let ?m = "dropWhile isspace d"
  let ?k = "dropWhile isspace (rev ?m)"
  from assms have k: "?k \<noteq> []" by (simp add: strip_def)
  have m: "?m \<noteq> []"
  proof
    assume "?m = []"
    then have "?k = []" by (simp only: rev.simps dropWhile.simps)
    with k show False ..
  qed
  have "last (strip d) = hd ?k"
    using k by (simp add: strip_def last_rev)
  then show "\<not> isspace (last (strip d))"
    using k hd_dropWhile [of isspace "rev ?m"] by simp
  have "hd (strip d) = last ?k"
    using k by (simp add: strip_def hd_rev)
  also have "\<dots> = last (rev ?m)"
    using k by (metis last_appendR takeWhile_dropWhile_id)
  also have "\<dots> = hd ?m"
    using m by (simp add: last_rev)
  finally show "\<not> isspace (hd (strip d))"
    using m hd_dropWhile [of isspace d] by simp
qed

text \<open>
  Claim C9. For a missing or empty definition \<open>parse\<close> raises \<open>NoDocstringError\<close>
  whatever the rule parser is, with the function's name in the message when a name is
  given. Otherwise the result is that of the rule parser on the stripped definition: the
  definition without the white space around it.
\<close>

theorem parse_docstring:
  "(defn = None \<or> defn = Some [] \<longrightarrow>
      parse prs defn (Some f) = Inl (NoDocstringError (''Function '' @ f @ '' has no docstring''))
      \<and> parse prs defn None = Inl (NoDocstringError ''Provided function has no docstring''))
   \<and> (d \<noteq> [] \<longrightarrow>
      parse prs (Some d) fname = prs (strip d)
      \<and> (\<exists>pre post. d = pre @ strip d @ post \<and> list_all isspace pre \<and> list_all isspace post)
      \<and> (strip d \<noteq> [] \<longrightarrow> \<not> isspace (hd (strip d)) \<and> \<not> isspace (last (strip d))))"
  using strip_decompose [of d] strip_ends [of d]
  by (auto simp: parse_def)

theorem parse_docstring_witness:
  "parse parser_parse None (Some ''px_f'') = Inl (NoDocstringError ''Function px_f has no docstring'')
   \<and> parse parser_parse (Some '''') None = Inl (NoDocstringError ''Provided function has no docstring'')
   \<and> parse parser_parse (Some ''  x: A '') None = Inr [\<lparr>lhs = ''x'', terms = [NamedTerm ''A'' ''A'']\<rparr>]"
proof -
  have s: "strip ''  x: A '' = ''x: A''"
    by code_simp
  have p: "parser_parse ''x: A'' = Inr [\<lparr>lhs = ''x'', terms = [NamedTerm ''A'' ''A'']\<rparr>]"
    by code_simp
  have n: "''  x: A '' \<noteq> []"
    by simp
  have a: "parse parser_parse None (Some ''px_f'')
      = Inl (NoDocstringError (''Function '' @ ''px_f'' @ '' has no docstring''))"
    using parse_docstring [of None parser_parse "''px_f''", THEN conjunct1] by simp
  have b: "parse parser_parse (Some '''') None
      = Inl (NoDocstringError ''Provided function has no docstring'')"
    using parse_docstring [of "Some ''''" parser_parse, THEN conjunct1] by simp
  have c: "parse parser_parse (Some ''  x: A '') None = parser_parse (strip ''  x: A '')"
    using parse_docstring [of _ parser_parse _ "''  x: A ''" None, THEN conjunct2, THEN mp, OF n]
    by (rule conjunct1)
  show ?thesis
    using a b c by (simp add: s p)
qed

section \<open>Expansion of optional groups\<close>

lemma process_rule_True:
  "process_rule ord True pp r
    = ord (map (\<lambda>r'. Formatted (format (flatten r') pp)) (Rule_expand_optionals r))"
  by (simp add: process_rule_def)

lemma process_rule_False:
  "process_rule ord False pp r = ord (map (\<lambda>r'. Flat (flatten r')) (Rule_expand_optionals r))"
  by (simp add: process_rule_def)

lemma expand_optionals_one:
  "coerce_to_ruleset prs inp = Inr [r]
    \<Longrightarrow> expand_optionals prs ord inp fmt pp = Inr (process_rule ord fmt pp r)"
  by (simp add: expand_optionals_def)

lemma distinct_process_rule: "set_iteration ord \<Longrightarrow> distinct (process_rule ord fmt pp r)"
  by (simp add: process_rule_def Let_def set_iteration_distinct)

lemma set_process_rule_True:
  "set_iteration ord \<Longrightarrow> set (process_rule ord True pp r)
    = (\<lambda>r'. Formatted (format (flatten r') pp)) ` set (Rule_expand_optionals r)"
  by (simp add: process_rule_True set_iteration_set)

lemma set_process_rule_False:
  "set_iteration ord \<Longrightarrow> set (process_rule ord False pp r)
    = (\<lambda>r'. Flat (flatten r')) ` set (Rule_expand_optionals r)"
  by (simp add: process_rule_False set_iteration_set)

lemma count_list_distinct: "distinct xs \<Longrightarrow> x \<in> set xs \<Longrightarrow> count_list xs x = 1"
  by (induction xs) (auto simp: count_list_0_iff)

lemma length_expand_terms_top_level:
  "groups_top_level ts \<Longrightarrow> length (expand_terms ts) = 2 ^ length (filter is_group ts)"
  by (induction ts rule: expand_terms.induct)
     (simp_all add: groups_top_level_def expand_terms_no_groups Let_def)

lemma length_expand_terms_group:
  "length (expand_terms (OptionalGroup g # ts))
    = (1 + length (expand_terms g)) * length (expand_terms ts)"
  by (simp add: Let_def length_concat comp_def sum_list_triv)

lemma set_iteration_length_distinct:
  "set_iteration ord \<Longrightarrow> distinct xs \<Longrightarrow> length (ord xs) = length xs"
  by (simp add: set_iteration_length distinct_card)

text \<open>
  Claim C2, as the code has it. The entries that \<open>expand_optionals\<close> produces from one
  rule contain no duplicates: they are the flattened and formatted lines of the rule's
  expansions (with \<open>format\<close>) or its flattened expansions (without), each exactly once,
  however many resolutions of the optional groups lead to it. For a ruleset the output
  is the concatenation, in order, of the entries of its rules, so it is free of
  duplicates when the ruleset is a single rule.
\<close>

theorem process_rule_dedup:
  assumes "set_iteration ord"
  shows "distinct (process_rule ord fmt pure_ply r)
    \<and> set (process_rule ord True pure_ply r)
        = (\<lambda>r'. Formatted (format (flatten r') pure_ply)) ` set (Rule_expand_optionals r)
    \<and> set (process_rule ord False pure_ply r)
        = (\<lambda>r'. Flat (flatten r')) ` set (Rule_expand_optionals r)
    \<and> (\<forall>e\<in>set (Rule_expand_optionals r).
          count_list (process_rule ord True pure_ply r) (Formatted (format (flatten e) pure_ply)) = 1
          \<and> count_list (process_rule ord False pure_ply r) (Flat (flatten e)) = 1)
    \<and> (coerce_to_ruleset prs ruleset = Inr rs \<longrightarrow>
          expand_optionals prs ord ruleset fmt pure_ply
            = Inr (concat (map (process_rule ord fmt pure_ply) rs)))
    \<and> (coerce_to_ruleset prs ruleset = Inr [r] \<longrightarrow>
          (\<exists>out. expand_optionals prs ord ruleset fmt pure_ply = Inr out \<and> distinct out))"
proof (intro conjI impI ballI)
  show "distinct (process_rule ord fmt pure_ply r)"
    using assms by (rule distinct_process_rule)
  show "set (process_rule ord True pure_ply r)
      = (\<lambda>r'. Formatted (format (flatten r') pure_ply)) ` set (Rule_expand_optionals r)"
    using assms by (rule set_process_rule_True)
  show "set (process_rule ord False pure_ply r)
      = (\<lambda>r'. Flat (flatten r')) ` set (Rule_expand_optionals r)"
    using assms by (rule set_process_rule_False)
  show "count_list (process_rule ord True pure_ply r) (Formatted (format (flatten e) pure_ply)) = 1"
    if "e \<in> set (Rule_expand_optionals r)" for e
    using that assms
    by (intro count_list_distinct distinct_process_rule) (simp_all add: set_process_rule_True)
  show "count_list (process_rule ord False pure_ply r) (Flat (flatten e)) = 1"
    if "e \<in> set (Rule_expand_optionals r)" for e
    using that assms
    by (intro count_list_distinct distinct_process_rule) (simp_all add: set_process_rule_False)
  show "expand_optionals prs ord ruleset fmt pure_ply
      = Inr (concat (map (process_rule ord fmt pure_ply) rs))"
    if "coerce_to_ruleset prs ruleset = Inr rs"
    using that by (simp add: expand_optionals_def)
  show "\<exists>out. expand_optionals prs ord ruleset fmt pure_ply = Inr out \<and> distinct out"
    if "coerce_to_ruleset prs ruleset = Inr [r]"
    using that assms by (simp add: expand_optionals_one distinct_process_rule)
qed

theorem process_rule_dedup_witness:
  "set_iteration (remdups :: expansion list \<Rightarrow> expansion list)
   \<and> Rule_expand_optionals \<lparr>lhs = ''x'', terms = [OptionalGroup [Term ''B''], OptionalGroup [Term ''B'']]\<rparr>
      = [\<lparr>lhs = ''x'', terms = []\<rparr>, \<lparr>lhs = ''x'', terms = [Term ''B'']\<rparr>,
         \<lparr>lhs = ''x'', terms = [Term ''B'']\<rparr>, \<lparr>lhs = ''x'', terms = [Term ''B'', Term ''B'']\<rparr>]
   \<and> count_list
        (process_rule remdups True True
          \<lparr>lhs = ''x'', terms = [OptionalGroup [Term ''B''], OptionalGroup [Term ''B'']]\<rparr>)
        (Formatted ''x : B'') = 1
   \<and> (\<exists>out. expand_optionals parser_parse remdups
        (Single (RuleItem \<lparr>lhs = ''x'', terms = [OptionalGroup [Term ''B''], OptionalGroup [Term ''B'']]\<rparr>))
        True True = Inr out \<and> distinct out)"
proof -
  let ?R = "\<lparr>lhs = ''x'', terms = [OptionalGroup [Term ''B''], OptionalGroup [Term ''B'']]\<rparr>"
  let ?e = "\<lparr>lhs = ''x'', terms = [Term ''B'']\<rparr>"
  have si: "set_iteration (remdups :: expansion list \<Rightarrow> expansion list)"
    by (rule set_iteration_remdups)
  have ex: "Rule_expand_optionals ?R
      = [\<lparr>lhs = ''x'', terms = []\<rparr>, ?e, ?e, \<lparr>lhs = ''x'', terms = [Term ''B'', Term ''B'']\<rparr>]"
    by code_simp
  have mem: "?e \<in> set (Rule_expand_optionals ?R)"
    by (simp add: ex)
  have key: "Formatted (format (flatten ?e) True) = Formatted ''x : B''"
    by code_simp
  have co: "coerce_to_ruleset parser_parse (Single (RuleItem ?R)) = Inr [?R]"
    by (rule coerce_single_rule)
  note t = process_rule_dedup [OF si, of True True ?R parser_parse "Single (RuleItem ?R)" "[]"]
  have a: "count_list (process_rule remdups True True ?R) (Formatted (format (flatten ?e) True)) = 1"
    using t [THEN conjunct2, THEN conjunct2, THEN conjunct2, THEN conjunct1, THEN bspec, OF mem]
    by (rule conjunct1)
  have b: "\<exists>out. expand_optionals parser_parse remdups (Single (RuleItem ?R)) True True = Inr out
      \<and> distinct out"
    using t [THEN conjunct2, THEN conjunct2, THEN conjunct2, THEN conjunct2, THEN conjunct2,
        THEN mp, OF co] .
  show ?thesis
    using si ex a b unfolding key by (intro conjI)
qed

lemma expand_optionals_two_rules_not_distinct:
  assumes "set_iteration ord"
  shows "\<exists>out. expand_optionals prs ord
      (Many [RuleItem \<lparr>lhs = ''x'', terms = [OptionalGroup [Term ''B''], Term ''C'']\<rparr>,
             RuleItem \<lparr>lhs = ''x'', terms = [Term ''B'', OptionalGroup [Term ''C'']]\<rparr>])
      True True = Inr out \<and> \<not> distinct out"
proof -
  let ?R1 = "\<lparr>lhs = ''x'', terms = [OptionalGroup [Term ''B''], Term ''C'']\<rparr>"
  let ?R2 = "\<lparr>lhs = ''x'', terms = [Term ''B'', OptionalGroup [Term ''C'']]\<rparr>"
  have k1: "map (\<lambda>r'. Formatted (format (flatten r') True)) (Rule_expand_optionals ?R1)
      = [Formatted ''x : C'', Formatted ''x : B C'']"
    by code_simp
  have k2: "map (\<lambda>r'. Formatted (format (flatten r') True)) (Rule_expand_optionals ?R2)
      = [Formatted ''x : B'', Formatted ''x : B C'']"
    by code_simp
  have "Formatted ''x : B C'' \<in> set (process_rule ord True True ?R1)"
    using set_iteration_set [OF assms] by (simp add: process_rule_True k1)
  moreover have "Formatted ''x : B C'' \<in> set (process_rule ord True True ?R2)"
    using set_iteration_set [OF assms] by (simp add: process_rule_True k2)
  ultimately have "\<not> distinct (process_rule ord True True ?R1 @ process_rule ord True True ?R2)"
    by (simp only: distinct_append) blast
  moreover have "coerce_to_ruleset prs (Many [RuleItem ?R1, RuleItem ?R2]) = Inr [?R1, ?R2]"
    by (simp add: coerce_to_ruleset_def coerce_to_rule_def)
  ultimately show ?thesis
    by (simp add: expand_optionals_def)
qed

text \<open>
  Claim C2, as stated, fails for a ruleset of several rules: the entries of different
  rules are not merged. The two rules \<open>x: (B)? C\<close> and \<open>x: B (C)?\<close> place the optional
  group differently and both resolve to \<open>x : B C\<close>, which the output then holds twice,
  here with each set listed in the order of first occurrence and, by the lemma before,
  in any other order as well.
\<close>

theorem expand_optionals_duplicates_counterexample:
  "expand_optionals parser_parse remdups
      (Many [RuleItem \<lparr>lhs = ''x'', terms = [OptionalGroup [Term ''B''], Term ''C'']\<rparr>,
             RuleItem \<lparr>lhs = ''x'', terms = [Term ''B'', OptionalGroup [Term ''C'']]\<rparr>])
      True True
    = Inr [Formatted ''x : C'', Formatted ''x : B C'', Formatted ''x : B'', Formatted ''x : B C'']
   \<and> \<not> distinct [Formatted ''x : C'', Formatted ''x : B C'', Formatted ''x : B'', Formatted ''x : B C'']"
  by code_simp

text \<open>
  Claim C1. A rule whose optional groups all stand at the top level, \<open>k\<close> of them, and
  whose expansions give pairwise different lines, has exactly \<open>2 ^ k\<close> entries in the
  output of \<open>expand_optionals\<close>, all different. The input \<open>x: A (B)? (C)?\<close> gives the four
  expansions \<open>A\<close>, \<open>A B\<close>, \<open>A C\<close> and \<open>A B C\<close>, as lines and as flattened rules.
\<close>

theorem expansion_count:
  assumes "set_iteration ord"
  shows "(groups_top_level (terms r)
      \<and> distinct (map (\<lambda>r'. format (flatten r') pure_ply) (Rule_expand_optionals r)) \<longrightarrow>
      (\<exists>out. expand_optionals prs ord (Single (RuleItem r)) True pure_ply = Inr out
        \<and> distinct out \<and> length out = 2 ^ length (filter is_group (terms r))))
    \<and> (\<exists>out. expand_optionals parser_parse ord (Single (StrItem ''x: A (B)? (C)?'')) True True = Inr out
        \<and> distinct out \<and> length out = 4
        \<and> set out = {Formatted ''x : A'', Formatted ''x : A B'', Formatted ''x : A C'',
                     Formatted ''x : A B C''})
    \<and> (\<exists>out. expand_optionals parser_parse ord (Single (StrItem ''x: A (B)? (C)?'')) False True = Inr out
        \<and> distinct out \<and> length out = 4
        \<and> set out = {Flat \<lparr>lhs = ''x'', terms = [NamedTerm ''A'' ''A'']\<rparr>,
                     Flat \<lparr>lhs = ''x'', terms = [NamedTerm ''A'' ''A'', NamedTerm ''B'' ''B'']\<rparr>,
                     Flat \<lparr>lhs = ''x'', terms = [NamedTerm ''A'' ''A'', NamedTerm ''C'' ''C'']\<rparr>,
                     Flat \<lparr>lhs = ''x'', terms = [NamedTerm ''A'' ''A'', NamedTerm ''B'' ''B'',
                                                NamedTerm ''C'' ''C'']\<rparr>})"
proof (intro conjI impI)
  assume h: "groups_top_level (terms r)
      \<and> distinct (map (\<lambda>r'. format (flatten r') pure_ply) (Rule_expand_optionals r))"
  let ?keys = "map (\<lambda>r'. Formatted (format (flatten r') pure_ply)) (Rule_expand_optionals r)"
  have "?keys = map Formatted (map (\<lambda>r'. format (flatten r') pure_ply) (Rule_expand_optionals r))"
    by simp
  then have d: "distinct ?keys"
    using h by (simp only: distinct_map) (simp add: inj_on_def)
  have "length (ord ?keys) = length ?keys"
    using assms d by (rule set_iteration_length_distinct)
  also have "\<dots> = 2 ^ length (filter is_group (terms r))"
    using h by (simp add: Rule_expand_optionals_def length_expand_terms_top_level)
  finally have "length (process_rule ord True pure_ply r) = 2 ^ length (filter is_group (terms r))"
    by (simp only: process_rule_True)
  then show "\<exists>out. expand_optionals prs ord (Single (RuleItem r)) True pure_ply = Inr out
      \<and> distinct out \<and> length out = 2 ^ length (filter is_group (terms r))"
    using assms by (simp add: expand_optionals_one [OF coerce_single_rule] distinct_process_rule)
next
  let ?R = "\<lparr>lhs = ''x'', terms = [NamedTerm ''A'' ''A'', OptionalGroup [NamedTerm ''B'' ''B''],
      OptionalGroup [NamedTerm ''C'' ''C'']]\<rparr>"
  let ?ks = "[Formatted ''x : A'', Formatted ''x : A C'', Formatted ''x : A B'',
      Formatted ''x : A B C'']"
  have co: "coerce_to_ruleset parser_parse (Single (StrItem ''x: A (B)? (C)?'')) = Inr [?R]"
    by code_simp
  have ks: "map (\<lambda>r'. Formatted (format (flatten r') True)) (Rule_expand_optionals ?R) = ?ks"
    by code_simp
  have d: "distinct ?ks"
    by simp
  have pr: "process_rule ord True True ?R = ord ?ks"
    by (simp only: process_rule_True ks)
  have "distinct (ord ?ks)"
    using assms by (rule set_iteration_distinct)
  moreover have "length (ord ?ks) = 4"
    using set_iteration_length_distinct [OF assms d] by simp
  moreover have "set (ord ?ks) = {Formatted ''x : A'', Formatted ''x : A B'', Formatted ''x : A C'',
      Formatted ''x : A B C''}"
    using set_iteration_set [OF assms, of ?ks] by auto
  ultimately show "\<exists>out. expand_optionals parser_parse ord (Single (StrItem ''x: A (B)? (C)?'')) True True
        = Inr out
      \<and> distinct out \<and> length out = 4
      \<and> set out = {Formatted ''x : A'', Formatted ''x : A B'', Formatted ''x : A C'',
                   Formatted ''x : A B C''}"
    by (simp only: expand_optionals_one [OF co] pr) blast
next
  let ?R = "\<lparr>lhs = ''x'', terms = [NamedTerm ''A'' ''A'', OptionalGroup [NamedTerm ''B'' ''B''],
      OptionalGroup [NamedTerm ''C'' ''C'']]\<rparr>"
  let ?ks = "[Flat \<lparr>lhs = ''x'', terms = [NamedTerm ''A'' ''A'']\<rparr>,
      Flat \<lparr>lhs = ''x'', terms = [NamedTerm ''A'' ''A'', NamedTerm ''C'' ''C'']\<rparr>,
      Flat \<lparr>lhs = ''x'', terms = [NamedTerm ''A'' ''A'', NamedTerm ''B'' ''B'']\<rparr>,
      Flat \<lparr>lhs = ''x'', terms = [NamedTerm ''A'' ''A'', NamedTerm ''B'' ''B'', NamedTerm ''C'' ''C'']\<rparr>]"
  have co: "coerce_to_ruleset parser_parse (Single (StrItem ''x: A (B)? (C)?'')) = Inr [?R]"
    by code_simp
  have ks: "map (\<lambda>r'. Flat (flatten r')) (Rule_expand_optionals ?R) = ?ks"
    by code_simp
  have d: "distinct ?ks"
    by simp
  have pr: "process_rule ord False True ?R = ord ?ks"
    by (simp only: process_rule_False ks)
  have "distinct (ord ?ks)"
    using assms by (rule set_iteration_distinct)
  moreover have "length (ord ?ks) = 4"
    using set_iteration_length_distinct [OF assms d] by simp
  moreover have "set (ord ?ks) = {Flat \<lparr>lhs = ''x'', terms = [NamedTerm ''A'' ''A'']\<rparr>,
      Flat \<lparr>lhs = ''x'', terms = [NamedTerm ''A'' ''A'', NamedTerm ''B'' ''B'']\<rparr>,
      Flat \<lparr>lhs = ''x'', terms = [NamedTerm ''A'' ''A'', NamedTerm ''C'' ''C'']\<rparr>,
      Flat \<lparr>lhs = ''x'', terms = [NamedTerm ''A'' ''A'', NamedTerm ''B'' ''B'', NamedTerm ''C'' ''C'']\<rparr>}"
    using set_iteration_set [OF assms, of ?ks] by auto
  ultimately show "\<exists>out. expand_optionals parser_parse ord (Single (StrItem ''x: A (B)? (C)?'')) False True
        = Inr out
      \<and> distinct out \<and> length out = 4
      \<and> set out = {Flat \<lparr>lhs = ''x'', terms = [NamedTerm ''A'' ''A'']\<rparr>,
          Flat \<lparr>lhs = ''x'', terms = [NamedTerm ''A'' ''A'', NamedTerm ''B'' ''B'']\<rparr>,
          Flat \<lparr>lhs = ''x'', terms = [NamedTerm ''A'' ''A'', NamedTerm ''C'' ''C'']\<rparr>,
          Flat \<lparr>lhs = ''x'', terms = [NamedTerm ''A'' ''A'', NamedTerm ''B'' ''B'', NamedTerm ''C'' ''C'']\<rparr>}"
    by (simp only: expand_optionals_one [OF co] pr) blast
qed

theorem expansion_count_witness:
  "set_iteration (remdups :: expansion list \<Rightarrow> expansion list)
   \<and> groups_top_level (terms \<lparr>lhs = ''x'', terms = [Term ''A'', OptionalGroup [Term ''B''],
        OptionalGroup [Term ''C''], OptionalGroup [Term ''D'']]\<rparr>)
   \<and> distinct (map (\<lambda>r'. format (flatten r') True)
        (Rule_expand_optionals \<lparr>lhs = ''x'', terms = [Term ''A'', OptionalGroup [Term ''B''],
          OptionalGroup [Term ''C''], OptionalGroup [Term ''D'']]\<rparr>))
   \<and> (\<exists>out. expand_optionals parser_parse remdups
          (Single (RuleItem \<lparr>lhs = ''x'', terms = [Term ''A'', OptionalGroup [Term ''B''],
            OptionalGroup [Term ''C''], OptionalGroup [Term ''D'']]\<rparr>)) True True = Inr out
        \<and> distinct out \<and> length out = 8)"
proof -
  let ?R = "\<lparr>lhs = ''x'', terms = [Term ''A'', OptionalGroup [Term ''B''],
      OptionalGroup [Term ''C''], OptionalGroup [Term ''D'']]\<rparr>"
  have si: "set_iteration (remdups :: expansion list \<Rightarrow> expansion list)"
    by (rule set_iteration_remdups)
  have g: "groups_top_level (terms ?R)"
    by code_simp
  have d: "distinct (map (\<lambda>r'. format (flatten r') True) (Rule_expand_optionals ?R))"
    by code_simp
  have k: "(2::nat) ^ length (filter is_group (terms ?R)) = 8"
    by simp
  have "\<exists>out. expand_optionals parser_parse remdups (Single (RuleItem ?R)) True True = Inr out
      \<and> distinct out \<and> length out = 2 ^ length (filter is_group (terms ?R))"
    using expansion_count [OF si, THEN conjunct1, THEN mp, OF conjI, OF g d] .
  then have "\<exists>out. expand_optionals parser_parse remdups (Single (RuleItem ?R)) True True = Inr out
      \<and> distinct out \<and> length out = 8"
    by (simp only: k)
  then show ?thesis
    using si g d by (intro conjI)
qed

text \<open>
  Claim C3. The input \<open>x: A (B (C)?)?\<close> has exactly three expansions, \<open>A\<close>, \<open>A B\<close> and
  \<open>A B C\<close>; the combination \<open>A C\<close> is not among them, nor is it produced and then
  removed. In general a group contributes the one variant without it and the expansions
  of its inner sequence, so a nested group is only resolved where the group around it is
  present.
\<close>

theorem nested_expansion:
  assumes "set_iteration ord"
  shows "parser_parse ''x: A (B (C)?)?''
      = Inr [\<lparr>lhs = ''x'', terms = [NamedTerm ''A'' ''A'',
               OptionalGroup [NamedTerm ''B'' ''B'', OptionalGroup [NamedTerm ''C'' ''C'']]]\<rparr>]
    \<and> map flatten (Rule_expand_optionals \<lparr>lhs = ''x'', terms = [NamedTerm ''A'' ''A'',
               OptionalGroup [NamedTerm ''B'' ''B'', OptionalGroup [NamedTerm ''C'' ''C'']]]\<rparr>)
      = [\<lparr>lhs = ''x'', terms = [NamedTerm ''A'' ''A'']\<rparr>,
         \<lparr>lhs = ''x'', terms = [NamedTerm ''A'' ''A'', NamedTerm ''B'' ''B'']\<rparr>,
         \<lparr>lhs = ''x'', terms = [NamedTerm ''A'' ''A'', NamedTerm ''B'' ''B'', NamedTerm ''C'' ''C'']\<rparr>]
    \<and> (\<exists>out. expand_optionals parser_parse ord (Single (StrItem ''x: A (B (C)?)?'')) False pure_ply
          = Inr out
        \<and> distinct out \<and> length out = 3
        \<and> set out = {Flat \<lparr>lhs = ''x'', terms = [NamedTerm ''A'' ''A'']\<rparr>,
            Flat \<lparr>lhs = ''x'', terms = [NamedTerm ''A'' ''A'', NamedTerm ''B'' ''B'']\<rparr>,
            Flat \<lparr>lhs = ''x'', terms = [NamedTerm ''A'' ''A'', NamedTerm ''B'' ''B'',
                                       NamedTerm ''C'' ''C'']\<rparr>}
        \<and> Flat \<lparr>lhs = ''x'', terms = [NamedTerm ''A'' ''A'', NamedTerm ''C'' ''C'']\<rparr> \<notin> set out)
    \<and> (\<exists>out. expand_optionals parser_parse ord (Single (StrItem ''x: A (B (C)?)?'')) True True
          = Inr out
        \<and> distinct out \<and> length out = 3
        \<and> set out = {Formatted ''x : A'', Formatted ''x : A B'', Formatted ''x : A B C''}
        \<and> Formatted ''x : A C'' \<notin> set out)
    \<and> length (expand_terms (OptionalGroup g # ts))
        = (1 + length (expand_terms g)) * length (expand_terms ts)"
proof (intro conjI)
  let ?R = "\<lparr>lhs = ''x'', terms = [NamedTerm ''A'' ''A'',
      OptionalGroup [NamedTerm ''B'' ''B'', OptionalGroup [NamedTerm ''C'' ''C'']]]\<rparr>"
  let ?fs = "[Flat \<lparr>lhs = ''x'', terms = [NamedTerm ''A'' ''A'']\<rparr>,
      Flat \<lparr>lhs = ''x'', terms = [NamedTerm ''A'' ''A'', NamedTerm ''B'' ''B'']\<rparr>,
      Flat \<lparr>lhs = ''x'', terms = [NamedTerm ''A'' ''A'', NamedTerm ''B'' ''B'', NamedTerm ''C'' ''C'']\<rparr>]"
  let ?ks = "[Formatted ''x : A'', Formatted ''x : A B'', Formatted ''x : A B C'']"
  show "parser_parse ''x: A (B (C)?)?'' = Inr [?R]"
    by code_simp
  show "map flatten (Rule_expand_optionals ?R)
      = [\<lparr>lhs = ''x'', terms = [NamedTerm ''A'' ''A'']\<rparr>,
         \<lparr>lhs = ''x'', terms = [NamedTerm ''A'' ''A'', NamedTerm ''B'' ''B'']\<rparr>,
         \<lparr>lhs = ''x'', terms = [NamedTerm ''A'' ''A'', NamedTerm ''B'' ''B'', NamedTerm ''C'' ''C'']\<rparr>]"
    by code_simp
  have co: "coerce_to_ruleset parser_parse (Single (StrItem ''x: A (B (C)?)?'')) = Inr [?R]"
    by code_simp
  have fs: "map (\<lambda>r'. Flat (flatten r')) (Rule_expand_optionals ?R) = ?fs"
    by code_simp
  have ks: "map (\<lambda>r'. Formatted (format (flatten r') True)) (Rule_expand_optionals ?R) = ?ks"
    by code_simp
  have dfs: "distinct ?fs" and dks: "distinct ?ks"
    by simp_all
  have "distinct (ord ?fs)"
    using assms by (rule set_iteration_distinct)
  moreover have "length (ord ?fs) = 3"
    using set_iteration_length_distinct [OF assms dfs] by simp
  moreover have sfs: "set (ord ?fs) = set ?fs"
    using assms by (rule set_iteration_set)
  moreover have "Flat \<lparr>lhs = ''x'', terms = [NamedTerm ''A'' ''A'', NamedTerm ''C'' ''C'']\<rparr>
      \<notin> set (ord ?fs)"
    unfolding sfs by simp
  ultimately show "\<exists>out. expand_optionals parser_parse ord (Single (StrItem ''x: A (B (C)?)?'')) False
        pure_ply = Inr out
      \<and> distinct out \<and> length out = 3
      \<and> set out = {Flat \<lparr>lhs = ''x'', terms = [NamedTerm ''A'' ''A'']\<rparr>,
          Flat \<lparr>lhs = ''x'', terms = [NamedTerm ''A'' ''A'', NamedTerm ''B'' ''B'']\<rparr>,
          Flat \<lparr>lhs = ''x'', terms = [NamedTerm ''A'' ''A'', NamedTerm ''B'' ''B'',
                                     NamedTerm ''C'' ''C'']\<rparr>}
      \<and> Flat \<lparr>lhs = ''x'', terms = [NamedTerm ''A'' ''A'', NamedTerm ''C'' ''C'']\<rparr> \<notin> set out"
    by (simp only: expand_optionals_one [OF co] process_rule_False fs) simp
  have "distinct (ord ?ks)"
    using assms by (rule set_iteration_distinct)
  moreover have "length (ord ?ks) = 3"
    using set_iteration_length_distinct [OF assms dks] by simp
  moreover have sks: "set (ord ?ks) = set ?ks"
    using assms by (rule set_iteration_set)
  moreover have "Formatted ''x : A C'' \<notin> set (ord ?ks)"
    unfolding sks by simp
  ultimately show "\<exists>out. expand_optionals parser_parse ord (Single (StrItem ''x: A (B (C)?)?'')) True
        True = Inr out
      \<and> distinct out \<and> length out = 3
      \<and> set out = {Formatted ''x : A'', Formatted ''x : A B'', Formatted ''x : A B C''}
      \<and> Formatted ''x : A C'' \<notin> set out"
    by (simp only: expand_optionals_one [OF co] process_rule_True ks) simp
  show "length (expand_terms (OptionalGroup g # ts))
      = (1 + length (expand_terms g)) * length (expand_terms ts)"
    by (rule length_expand_terms_group)
qed

theorem nested_expansion_witness:
  "set_iteration (remdups :: expansion list \<Rightarrow> expansion list)
   \<and> (\<exists>out. expand_optionals parser_parse remdups (Single (StrItem ''x: A (B (C)?)?'')) True True
          = Inr out
        \<and> distinct out \<and> length out = 3
        \<and> set out = {Formatted ''x : A'', Formatted ''x : A B'', Formatted ''x : A B C''}
        \<and> Formatted ''x : A C'' \<notin> set out)"
proof -
  have si: "set_iteration (remdups :: expansion list \<Rightarrow> expansion list)"
    by (rule set_iteration_remdups)
  show ?thesis
    using si nested_expansion [OF si, THEN conjunct2, THEN conjunct2, THEN conjunct2, THEN conjunct1]
    by (intro conjI)
qed

section \<open>The wrapper\<close>

lemma extract_kwargs_slots:
  "i + length ts < length p \<Longrightarrow>
   \<exists>kw. extract_kwargs ts i p kwargs = Inr kw
     \<and> (\<forall>n. (\<forall>s. NamedTerm n s \<notin> set ts) \<longrightarrow> kw n = kwargs n)
     \<and> (\<forall>j n s. j < length ts \<and> ts ! j = NamedTerm n s
            \<and> (\<forall>s'. NamedTerm n s' \<notin> set (drop (Suc j) ts))
          \<longrightarrow> kw n = Some (p ! (i + j + 1)))"
proof (induction ts arbitrary: i kwargs)
  case Nil
  then show ?case by simp
next
  case (Cons t ts)
  define kwargs' where "kwargs' = (case t of NamedTerm name symb \<Rightarrow> kwargs(name \<mapsto> p ! (i + 1))
    | _ \<Rightarrow> kwargs)"
  from Cons.prems have lt: "i + 1 < length p" and len: "i + 1 + length ts < length p"
    by simp_all
  have step: "extract_kwargs (t # ts) i p kwargs = extract_kwargs ts (i + 1) p kwargs'"
    using lt by (cases t) (simp_all add: kwargs'_def)
  from Cons.IH [OF len] obtain kw where
    run: "extract_kwargs ts (i + 1) p kwargs' = Inr kw"
    and keep: "\<And>n. (\<forall>s. NamedTerm n s \<notin> set ts) \<Longrightarrow> kw n = kwargs' n"
    and slot: "\<And>j n s. j < length ts \<Longrightarrow> ts ! j = NamedTerm n s
        \<Longrightarrow> (\<forall>s'. NamedTerm n s' \<notin> set (drop (Suc j) ts))
        \<Longrightarrow> kw n = Some (p ! (i + 1 + j + 1))"
    by blast
  have "extract_kwargs (t # ts) i p kwargs = Inr kw"
    using step run by simp
  moreover have "kw n = kwargs n" if "\<forall>s. NamedTerm n s \<notin> set (t # ts)" for n
  proof -
    from that have "\<forall>s. t \<noteq> NamedTerm n s" and "\<forall>s. NamedTerm n s \<notin> set ts" by auto
    then have "kw n = kwargs' n" and "kwargs' n = kwargs n"
      using keep [of n] by (auto simp: kwargs'_def split: node.splits)
    then show ?thesis by simp
  qed
  moreover have "kw n = Some (p ! (i + j + 1))"
    if "j < length (t # ts)" and "(t # ts) ! j = NamedTerm n s"
      and "\<forall>s'. NamedTerm n s' \<notin> set (drop (Suc j) (t # ts))" for j n s
  proof (cases j)
    case 0
    with that have "t = NamedTerm n s" and "\<forall>s'. NamedTerm n s' \<notin> set ts" by simp_all
    then show ?thesis using keep [of n] 0 by (simp add: kwargs'_def)
  next
    case (Suc k)
    with that have "k < length ts" and "ts ! k = NamedTerm n s"
      and "\<forall>s'. NamedTerm n s' \<notin> set (drop (Suc k) ts)" by simp_all
    then show ?thesis using slot [of k n s] Suc by simp
  qed
  ultimately show ?case by blast
qed

lemma extract_kwargs_dom:
  "extract_kwargs ts i p kwargs = Inr kw
    \<Longrightarrow> dom kw = dom kwargs \<union> {n. \<exists>s. NamedTerm n s \<in> set ts}"
  by (induction ts i p kwargs rule: extract_kwargs.induct) (auto split: if_splits)

text \<open>
  Claim C6, as the code has it. For an input that coerces to a single rule and a parse
  stack with a slot for every term of the flattened rule, \<open>create_wrapper\<close> returns a
  wrapper whose docstring is the rule's line and which calls the function with keyword
  arguments named by the named terms of the flattened rule; for a named term at
  position \<open>i\<close> whose name no later named term bears, the argument of that name is the
  slot \<open>p[i + 1]\<close>. The function's result is stored in slot \<open>p[0]\<close>, and no other slot
  changes.
\<close>

theorem wrapper_slots:
  assumes "coerce_to_single_rule prs inp = Inr r0"
    and "length (terms (flatten r0)) < length p"
  shows "\<exists>w kw. create_wrapper prs inp func = Inr w
      \<and> doc w = format (flatten r0) True
      \<and> extract_kwargs (terms (flatten r0)) 0 p Map.empty = Inr kw
      \<and> call w p = (case func kw of Inl e \<Rightarrow> Inl e | Inr v \<Rightarrow> Inr (p[0 := v]))
      \<and> dom kw = {n. \<exists>s. NamedTerm n s \<in> set (terms (flatten r0))}
      \<and> (\<forall>i n s. i < length (terms (flatten r0)) \<and> terms (flatten r0) ! i = NamedTerm n s
            \<and> (\<forall>s'. NamedTerm n s' \<notin> set (drop (Suc i) (terms (flatten r0))))
          \<longrightarrow> kw n = Some (p ! (i + 1)))"
proof -
  let ?ts = "terms (flatten r0)"
  from assms(2) have "0 + length ?ts < length p" by simp
  from extract_kwargs_slots [OF this, of Map.empty] obtain kw where
    run: "extract_kwargs ?ts 0 p Map.empty = Inr kw"
    and slot: "\<forall>j n s. j < length ?ts \<and> ?ts ! j = NamedTerm n s
        \<and> (\<forall>s'. NamedTerm n s' \<notin> set (drop (Suc j) ?ts))
      \<longrightarrow> kw n = Some (p ! (0 + j + 1))"
    by blast
  let ?w = "\<lparr>call = wrapper (flatten r0) func, doc = format (flatten r0) True\<rparr>"
  have cw: "create_wrapper prs inp func = Inr ?w"
    using assms(1) by (simp add: create_wrapper_def Let_def)
  have "0 < length p"
    by (rule le_less_trans [OF le0 assms(2)])
  then have call: "call ?w p = (case func kw of Inl e \<Rightarrow> Inl e | Inr v \<Rightarrow> Inr (p[0 := v]))"
    using run by (simp add: wrapper_def split: sum.splits)
  have d: "dom kw = {n. \<exists>s. NamedTerm n s \<in> set ?ts}"
    using extract_kwargs_dom [OF run] by simp
  have "doc ?w = format (flatten r0) True"
    by simp
  with cw run call d slot show ?thesis
    by (intro exI [of _ ?w] exI [of _ kw]) simp
qed

theorem wrapper_slots_witness:
  "coerce_to_single_rule parser_parse (Single (StrItem ''x: A n=B (C)?''))
      = Inr \<lparr>lhs = ''x'', terms = [NamedTerm ''A'' ''A'', NamedTerm ''n'' ''B'',
              OptionalGroup [NamedTerm ''C'' ''C'']]\<rparr>
   \<and> (\<exists>w kw. create_wrapper parser_parse (Single (StrItem ''x: A n=B (C)?''))
          (\<lambda>kw. case kw ''n'' of Some v \<Rightarrow> Inr (v + 1) | None \<Rightarrow> Inl IndexError) = Inr w
        \<and> doc w = ''x : A B C''
        \<and> call w [0, 10, 20, 30 :: nat] = Inr [21, 10, 20, 30]
        \<and> kw ''A'' = Some (10 :: nat) \<and> kw ''n'' = Some 20 \<and> kw ''C'' = Some 30)"
proof -
  let ?R = "\<lparr>lhs = ''x'', terms = [NamedTerm ''A'' ''A'', NamedTerm ''n'' ''B'',
      OptionalGroup [NamedTerm ''C'' ''C'']]\<rparr>"
  let ?ts = "[NamedTerm ''A'' ''A'', NamedTerm ''n'' ''B'', NamedTerm ''C'' ''C'']"
  let ?f = "\<lambda>kw :: string \<rightharpoonup> nat. case kw ''n'' of Some v \<Rightarrow> Inr (v + 1) | None \<Rightarrow> Inl IndexError"
  let ?p = "[0, 10, 20, 30 :: nat]"
  have co: "coerce_to_single_rule parser_parse (Single (StrItem ''x: A n=B (C)?'')) = Inr ?R"
    by code_simp
  have ts: "terms (flatten ?R) = ?ts"
    by code_simp
  have len: "length (terms (flatten ?R)) < length ?p"
    by (simp add: ts)
  have fm: "format (flatten ?R) True = ''x : A B C''"
    by code_simp
  from wrapper_slots [OF co len, of ?f] obtain w kw where
    w: "create_wrapper parser_parse (Single (StrItem ''x: A n=B (C)?'')) ?f = Inr w"
    and dw: "doc w = format (flatten ?R) True"
    and cw: "call w ?p = (case ?f kw of Inl e \<Rightarrow> Inl e | Inr v \<Rightarrow> Inr (?p[0 := v]))"
    and slot: "\<forall>i n s. i < length (terms (flatten ?R)) \<and> terms (flatten ?R) ! i = NamedTerm n s
        \<and> (\<forall>s'. NamedTerm n s' \<notin> set (drop (Suc i) (terms (flatten ?R))))
      \<longrightarrow> kw n = Some (?p ! (i + 1))"
    by blast
  have a: "kw ''A'' = Some 10"
    using slot [rule_format, of 0 "''A''" "''A''"] by (simp add: ts)
  have n: "kw ''n'' = Some 20"
    using slot [rule_format, of 1 "''n''" "''B''"] by (simp add: ts)
  have c: "kw ''C'' = Some 30"
    using slot [rule_format, of 2 "''C''" "''C''"] by (simp add: ts)
  have "call w ?p = Inr [21, 10, 20, 30]"
    using cw by (simp add: n)
  with w dw a n c have "create_wrapper parser_parse (Single (StrItem ''x: A n=B (C)?'')) ?f = Inr w
      \<and> doc w = ''x : A B C''
      \<and> call w ?p = Inr [21, 10, 20, 30]
      \<and> kw ''A'' = Some (10 :: nat) \<and> kw ''n'' = Some 20 \<and> kw ''C'' = Some 30"
    by (simp only: fm)
  then have "\<exists>w kw. create_wrapper parser_parse (Single (StrItem ''x: A n=B (C)?'')) ?f = Inr w
      \<and> doc w = ''x : A B C''
      \<and> call w ?p = Inr [21, 10, 20, 30]
      \<and> kw ''A'' = Some (10 :: nat) \<and> kw ''n'' = Some 20 \<and> kw ''C'' = Some 30"
    by (intro exI)
  with co show ?thesis
    by (intro conjI)
qed

text \<open>
  Claim C6, as stated, fails where two named terms of the flattened rule share a name:
  the later assignment to \<open>kwargs\<close> replaces the earlier one. In the full expansion of
  \<open>production: SYM another (SYM another)?\<close> the name \<open>SYM\<close> stands at positions 0 and 2,
  and the function receives slot 3 under that name, not slot 1.
\<close>

theorem wrapper_slots_counterexample:
  "terms (flatten \<lparr>lhs = ''production'', terms = [NamedTerm ''SYM'' ''SYM'',
      NamedTerm ''another'' ''another'', NamedTerm ''SYM'' ''SYM'',
      NamedTerm ''another'' ''another'']\<rparr>) ! 0 = NamedTerm ''SYM'' ''SYM''
   \<and> (\<exists>kw. extract_kwargs (terms (flatten \<lparr>lhs = ''production'', terms = [NamedTerm ''SYM'' ''SYM'',
          NamedTerm ''another'' ''another'', NamedTerm ''SYM'' ''SYM'',
          NamedTerm ''another'' ''another'']\<rparr>)) 0 [0, 1, 2, 3, 4 :: nat] Map.empty = Inr kw
        \<and> kw ''SYM'' = Some 3
        \<and> kw ''SYM'' \<noteq> Some ([0, 1, 2, 3, 4] ! (0 + 1)))
   \<and> (\<exists>w. create_wrapper parser_parse (Single (RuleItem \<lparr>lhs = ''production'',
          terms = [NamedTerm ''SYM'' ''SYM'', NamedTerm ''another'' ''another'',
                   NamedTerm ''SYM'' ''SYM'', NamedTerm ''another'' ''another'']\<rparr>))
          (\<lambda>kw. case kw ''SYM'' of Some v \<Rightarrow> Inr v | None \<Rightarrow> Inl IndexError) = Inr w
        \<and> call w [0, 1, 2, 3, 4 :: nat] = Inr [3, 1, 2, 3, 4])"
proof -
  let ?R = "\<lparr>lhs = ''production'', terms = [NamedTerm ''SYM'' ''SYM'',
      NamedTerm ''another'' ''another'', NamedTerm ''SYM'' ''SYM'',
      NamedTerm ''another'' ''another'']\<rparr>"
  have ts: "terms (flatten ?R) = [NamedTerm ''SYM'' ''SYM'',
      NamedTerm ''another'' ''another'', NamedTerm ''SYM'' ''SYM'',
      NamedTerm ''another'' ''another'']"
    by code_simp
  have a: "terms (flatten ?R) ! 0 = NamedTerm ''SYM'' ''SYM''"
    by (simp add: ts)
  have b: "\<exists>kw. extract_kwargs (terms (flatten ?R)) 0 [0, 1, 2, 3, 4 :: nat] Map.empty = Inr kw
      \<and> kw ''SYM'' = Some 3 \<and> kw ''SYM'' \<noteq> Some ([0, 1, 2, 3, 4] ! (0 + 1))"
    by (simp add: ts)
  have c: "\<exists>w. create_wrapper parser_parse (Single (RuleItem ?R))
        (\<lambda>kw. case kw ''SYM'' of Some v \<Rightarrow> Inr v | None \<Rightarrow> Inl IndexError) = Inr w
      \<and> call w [0, 1, 2, 3, 4 :: nat] = Inr [3, 1, 2, 3, 4]"
    by (simp add: create_wrapper_def Let_def coerce_to_single_rule_def coerce_single_rule wrapper_def ts)
  show ?thesis
    using a b c by (intro conjI)
qed

section \<open>Malformed input to the rule parser\<close>

lemma tokens_balanced_Word [simp]: "tokens_balanced d (Word v # ts) = tokens_balanced d ts"
  by simp
















end
